theory Spec2Isabelle
  imports Main
begin

section \<open>Characters and errors\<close>

text \<open>
  Board cells and notation text are Python strings of one ASCII character each; they are
  modelled as \<open>char\<close>. The three string methods the source uses are written out on
  the ASCII range.
\<close>

definition ascii_uppercase :: string where
  "ascii_uppercase = ''ABCDEFGHIJKLMNOPQRSTUVWXYZ''"

definition ascii_lowercase :: string where
  "ascii_lowercase = ''abcdefghijklmnopqrstuvwxyz''"

definition isupper :: "char \<Rightarrow> bool" where
  "isupper c = (c \<in> set ascii_uppercase)"

definition upper :: "char \<Rightarrow> char" where
  "upper c = (case map_of (zip ascii_lowercase ascii_uppercase) c of Some u \<Rightarrow> u | None \<Rightarrow> c)"

definition lower :: "char \<Rightarrow> char" where
  "lower c = (case map_of (zip ascii_uppercase ascii_lowercase) c of Some l \<Rightarrow> l | None \<Rightarrow> c)"

text \<open>
  Every failure of the source is a Python exception. The \<open>ValueError\<close>s are told apart
  by the place that raises them: \<open>OutOfRange\<close> (move.py lines 31, 34, 67, 69),
  \<open>InvalidPromotion\<close> (move.py line 37), \<open>MalformedNotation\<close> (move.py lines 88, 92)
  and \<open>IllegalMove\<close> (board.py line 140). \<open>IndexError\<close> is what \<open>find(piece)[0]\<close>
  raises when the piece is not on the board.
\<close>

datatype error = OutOfRange | InvalidPromotion | MalformedNotation | IllegalMove | IndexError

section \<open>Move (move.py)\<close>

type_synonym pos = "int \<times> int"

record move =
  source :: pos
  target :: pos
  promotion :: "string option"

text \<open>\<open>Move._is_valid_position\<close>: both coordinates are integers in 0..7.\<close>

definition is_valid_position :: "pos \<Rightarrow> bool" where
  "is_valid_position p = (case p of (row, col) \<Rightarrow> 0 \<le> row \<and> row < 8 \<and> 0 \<le> col \<and> col < 8)"

text \<open>
  \<open>isinstance(promotion, str)\<close>: the promotion is typed \<open>Optional[str]\<close>, so a promotion
  that is present is a string.
\<close>

definition isinstance_str :: "string \<Rightarrow> bool" where
  "isinstance_str s = True"

text \<open>Python's \<open>needle in hay\<close> on strings: \<open>needle\<close> occurs as a contiguous part of \<open>hay\<close>.\<close>

fun starts_with :: "string \<Rightarrow> string \<Rightarrow> bool" where
  "starts_with hay [] = True"
| "starts_with [] (c # cs) = False"
| "starts_with (h # hs) (c # cs) = (h = c \<and> starts_with hs cs)"

fun str_in :: "string \<Rightarrow> string \<Rightarrow> bool" where
  "str_in needle [] = (needle = [])"
| "str_in needle (h # hs) = (starts_with (h # hs) needle \<or> str_in needle hs)"

text \<open>\<open>Move.__init__\<close>.\<close>

definition Move_init :: "pos \<Rightarrow> pos \<Rightarrow> string option \<Rightarrow> error + move" where
  "Move_init src dst promo =
     (if \<not> is_valid_position src then Inl OutOfRange
      else if \<not> is_valid_position dst then Inl OutOfRange
      else if (case promo of None \<Rightarrow> False
               | Some p \<Rightarrow> \<not> isinstance_str p \<and> \<not> str_in p ''qbnr'') then Inl InvalidPromotion
      else Inr \<lparr>source = src, target = dst, promotion = promo\<rparr>)"

text \<open>\<open>int(rank_char)\<close> on a decimal digit.\<close>

definition int_of_digit :: "char \<Rightarrow> int" where
  "int_of_digit c = int (of_char c) - 48"

text \<open>\<open>Move._algebraic_to_index\<close>.\<close>

definition algebraic_to_index :: "string \<Rightarrow> error + pos" where
  "algebraic_to_index square =
     (if length square \<noteq> 2 then Inl MalformedNotation
      else let file_char = square ! 0; rank_char = square ! 1 in
        if lower file_char \<notin> set ''abcdefgh'' \<or> rank_char \<notin> set ''12345678''
        then Inl MalformedNotation
        else Inr (8 - int_of_digit rank_char,
                  int (of_char (lower file_char)) - int (of_char (CHR ''a''))))"

text \<open>\<open>Move.from_algebraic\<close>.\<close>

definition from_algebraic :: "string \<Rightarrow> string \<Rightarrow> string option \<Rightarrow> error + move" where
  "from_algebraic s t promo =
     (case algebraic_to_index s of Inl e \<Rightarrow> Inl e
      | Inr src \<Rightarrow>
        (case algebraic_to_index t of Inl e \<Rightarrow> Inl e
         | Inr dst \<Rightarrow>
           if \<not> is_valid_position src then Inl OutOfRange
           else if \<not> is_valid_position dst then Inl OutOfRange
           else Move_init src dst promo))"

text \<open>
  The accepted square text in the words of the specification: exactly two characters, a
  file letter \<open>a\<close> to \<open>h\<close> and a rank digit \<open>1\<close> to \<open>8\<close>.
\<close>

definition spec_square_ok :: "string \<Rightarrow> bool" where
  "spec_square_ok sq = (length sq = 2 \<and> sq ! 0 \<in> set ''abcdefgh'' \<and> sq ! 1 \<in> set ''12345678'')"

text \<open>The accepted square text of the source: the file letter is lowered before the test.\<close>

definition square_ok :: "string \<Rightarrow> bool" where
  "square_ok sq = (length sq = 2 \<and> lower (sq ! 0) \<in> set ''abcdefgh'' \<and> sq ! 1 \<in> set ''12345678'')"

definition square_index :: "string \<Rightarrow> pos" where
  "square_index sq = (8 - int_of_digit (sq ! 1), int (of_char (lower (sq ! 0))) - 97)"

section \<open>Board (board.py)\<close>

text \<open>
  The grid is the source's list of eight rows of eight one-character cells
  (\<open>wf_grid\<close>); rows are separate lists, as \<open>_default_board\<close> builds them. Every read
  and write of the source is at a square that \<open>is_inside\<close> accepted, at a literal square
  of the board, or at a square of a validated \<open>Move\<close>; the results below are stated for
  well-formed grids and squares on the board, where \<open>cell\<close> and \<open>set_cell\<close> are the
  source's \<open>self.board[r][c]\<close> and \<open>self.board[r][c] = v\<close>.
\<close>

type_synonym grid = "char list list"

definition wf_grid :: "grid \<Rightarrow> bool" where
  "wf_grid g = (length g = 8 \<and> list_all (\<lambda>row. length row = 8) g)"

definition cell :: "grid \<Rightarrow> int \<Rightarrow> int \<Rightarrow> char" where
  "cell g r c = g ! nat r ! nat c"

definition set_cell :: "grid \<Rightarrow> int \<Rightarrow> int \<Rightarrow> char \<Rightarrow> grid" where
  "set_cell g r c v = g[nat r := (g ! nat r)[nat c := v]]"

text \<open>
  The attributes of \<open>Board\<close>. The dictionary \<open>castling\<close> is a map from the keys
  \<open>K\<close>, \<open>Q\<close>, \<open>k\<close>, \<open>q\<close>; \<open>castling_get\<close> is \<open>self.castling.get(key, False)\<close>.
\<close>

record board_state =
  board :: grid
  white_turn :: bool
  castling :: "char \<rightharpoonup> bool"
  white_in_check :: bool
  black_in_check :: bool
  en_passant :: "pos option"
  halfmove_clock :: int
  fullmove_number :: int

definition castling_get :: "board_state \<Rightarrow> char \<Rightarrow> bool" where
  "castling_get b key = (case castling b key of Some v \<Rightarrow> v | None \<Rightarrow> False)"

definition default_board :: grid where
  "default_board =
     [''rnbqkbnr'', ''pppppppp'', ''........'', ''........'',
      ''........'', ''........'', ''PPPPPPPP'', ''RNBQKBNR'']"

text \<open>
  \<open>Board.__init__\<close>: \<open>position or self._default_board()\<close> takes the default
  board when the position is \<open>None\<close> or the empty list.
\<close>

definition Board_init :: "grid option \<Rightarrow> board_state" where
  "Board_init position =
     \<lparr>board = (case position of None \<Rightarrow> default_board
               | Some p \<Rightarrow> if p = [] then default_board else p),
      white_turn = True,
      castling = [CHR ''K'' \<mapsto> True, CHR ''Q'' \<mapsto> True, CHR ''k'' \<mapsto> True, CHR ''q'' \<mapsto> True],
      white_in_check = False, black_in_check = False, en_passant = None,
      halfmove_clock = 0, fullmove_number = 1\<rparr>"

text \<open>\<open>Board.make_raw_move\<close>.\<close>

definition make_raw_move :: "board_state \<Rightarrow> move \<Rightarrow> board_state" where
  "make_raw_move b m =
     (let src_row = fst (source m); src_col = snd (source m);
          dst_row = fst (target m); dst_col = snd (target m);
          piece = cell (board b) src_row src_col;
          g1 = set_cell (board b) src_row src_col (CHR ''.'');
          g2 = set_cell g1 dst_row dst_col piece
      in b\<lparr>board := g2\<rparr>)"

subsection \<open>Move generation before pin verification (lines 225 to 402)\<close>

definition is_inside :: "int \<Rightarrow> int \<Rightarrow> bool" where
  "is_inside r c = (0 \<le> r \<and> r < 8 \<and> 0 \<le> c \<and> c < 8)"

text \<open>The pawn branch: advances unless \<open>attack_moves_only\<close>, then the two diagonals.\<close>

definition pawn_moves :: "board_state \<Rightarrow> int \<Rightarrow> int \<Rightarrow> bool \<Rightarrow> bool \<Rightarrow> pos list" where
  "pawn_moves b row col is_white attack_moves_only =
     (let direction = (if is_white then - 1 else 1);
          start_row = (if is_white then 6 else 1);
          forward = row + direction;
          forward2 = row + 2 * direction;
          advances =
            (if \<not> attack_moves_only \<and> is_inside forward col
                \<and> cell (board b) forward col = CHR ''.''
             then (forward, col) #
                  (if row = start_row \<and> is_inside forward2 col
                      \<and> cell (board b) forward2 col = CHR ''.''
                   then [(forward2, col)] else [])
             else []);
          capture = (\<lambda>dc.
            let new_r = row + direction; new_c = col + dc in
            if is_inside new_r new_c then
              (let target = cell (board b) new_r new_c in
                 (if target \<noteq> CHR ''.'' \<and> isupper target \<noteq> is_white
                  then [(new_r, new_c)] else []) @
                 (case en_passant b of None \<Rightarrow> []
                  | Some ep \<Rightarrow>
                      if new_r = fst ep \<and> new_c = snd ep then [(new_r, new_c)] else []))
            else [])
      in advances @ concat (map capture [- 1, 1]))"

text \<open>The knight and king loops over a list of offsets.\<close>

definition step_moves :: "grid \<Rightarrow> int \<Rightarrow> int \<Rightarrow> bool \<Rightarrow> (int \<times> int) list \<Rightarrow> pos list" where
  "step_moves g row col is_white offsets =
     concat (map (\<lambda>(dr, dc).
       let new_r = row + dr; new_c = col + dc in
       if is_inside new_r new_c then
         (let target = cell g new_r new_c in
          if target = CHR ''.'' \<or> isupper target \<noteq> is_white then [(new_r, new_c)] else [])
       else []) offsets)"

text \<open>
  The \<open>while True\<close> loop of the rook, bishop and queen branches along one direction,
  entered with \<open>(r, c)\<close> the square reached so far. The directions of the source are
  never \<open>(0, 0)\<close>; for that direction the loop would look at the piece's own square and
  stop with nothing added.
\<close>

function slide :: "grid \<Rightarrow> bool \<Rightarrow> int \<Rightarrow> int \<Rightarrow> int \<Rightarrow> int \<Rightarrow> pos list" where
  "slide g is_white r c dr dc =
     (if dr = 0 \<and> dc = 0 then []
      else let r' = r + dr; c' = c + dc in
        if \<not> is_inside r' c' then []
        else let target = cell g r' c' in
          if target = CHR ''.'' then (r', c') # slide g is_white r' c' dr dc
          else if isupper target \<noteq> is_white then [(r', c')]
          else [])"
  by pat_completeness auto
termination
  by (relation "measure (\<lambda>(g, w, r, c, dr, dc).
        nat (if 0 < dr then 8 - r else if dr < 0 then r + 1
             else if 0 < dc then 8 - c else c + 1))")
     (auto simp: is_inside_def)

declare slide.simps [simp del]

definition slide_moves :: "grid \<Rightarrow> int \<Rightarrow> int \<Rightarrow> bool \<Rightarrow> (int \<times> int) list \<Rightarrow> pos list" where
  "slide_moves g row col is_white directions =
     concat (map (\<lambda>(dr, dc). slide g is_white row col dr dc) directions)"

definition knight_offsets :: "(int \<times> int) list" where
  "knight_offsets = [(2, 1), (2, - 1), (- 2, 1), (- 2, - 1), (1, 2), (1, - 2), (- 1, 2), (- 1, - 2)]"

definition rook_directions :: "(int \<times> int) list" where
  "rook_directions = [(- 1, 0), (1, 0), (0, - 1), (0, 1)]"

definition bishop_directions :: "(int \<times> int) list" where
  "bishop_directions = [(- 1, - 1), (- 1, 1), (1, - 1), (1, 1)]"

definition queen_directions :: "(int \<times> int) list" where
  "queen_directions = [(- 1, 0), (1, 0), (0, - 1), (0, 1), (- 1, - 1), (- 1, 1), (1, - 1), (1, 1)]"

definition king_offsets :: "(int \<times> int) list" where
  "king_offsets = [(- 1, - 1), (- 1, 0), (- 1, 1), (0, - 1), (0, 1), (1, - 1), (1, 0), (1, 1)]"

text \<open>
  The castling block (lines 351 to 402). \<open>attacked pos w\<close> stands for the call
  \<open>self.is_under_attack(pos, w)\<close>.
\<close>

definition castling_moves ::
  "(pos \<Rightarrow> bool \<Rightarrow> bool) \<Rightarrow> board_state \<Rightarrow> int \<Rightarrow> int \<Rightarrow> bool \<Rightarrow> pos list" where
  "castling_moves attacked b row col is_white =
     (let g = board b in
      if is_white \<and> row = 7 \<and> col = 4 then
        (if castling_get b (CHR ''K'') \<and> cell g 7 5 = CHR ''.'' \<and> cell g 7 6 = CHR ''.''
            \<and> cell g 7 7 = CHR ''R'' \<and> \<not> attacked (7, 5) False \<and> \<not> attacked (7, 6) False
         then [(7, 6)] else []) @
        (if castling_get b (CHR ''Q'') \<and> cell g 7 3 = CHR ''.'' \<and> cell g 7 2 = CHR ''.''
            \<and> cell g 7 1 = CHR ''.'' \<and> cell g 7 0 = CHR ''R'' \<and> \<not> attacked (7, 3) False
            \<and> \<not> attacked (7, 2) False \<and> \<not> attacked (7, 1) False
         then [(7, 2)] else [])
      else if \<not> is_white \<and> row = 0 \<and> col = 4 then
        (if castling_get b (CHR ''k'') \<and> cell g 0 5 = CHR ''.'' \<and> cell g 0 6 = CHR ''.''
            \<and> cell g 0 7 = CHR ''r'' \<and> \<not> attacked (0, 5) True \<and> \<not> attacked (0, 6) True
         then [(0, 6)] else []) @
        (if castling_get b (CHR ''q'') \<and> cell g 0 3 = CHR ''.'' \<and> cell g 0 2 = CHR ''.''
            \<and> cell g 0 1 = CHR ''.'' \<and> cell g 0 0 = CHR ''r'' \<and> \<not> attacked (0, 3) True
            \<and> \<not> attacked (0, 2) True \<and> \<not> attacked (0, 1) True
         then [(0, 2)] else [])
      else [])"

text \<open>
  The list \<open>moves\<close> of \<open>get_valid_moves\<close> when it reaches the pin verification: the
  dispatch on \<open>piece.upper()\<close>. The source calls \<open>is_under_attack\<close> only in the castling
  block, that is only when \<open>attack_moves_only\<close> is false.
\<close>

definition candidate_moves ::
  "(pos \<Rightarrow> bool \<Rightarrow> bool) \<Rightarrow> board_state \<Rightarrow> pos \<Rightarrow> bool \<Rightarrow> pos list" where
  "candidate_moves attacked b pos attack_moves_only =
     (case pos of (row, col) \<Rightarrow>
      let piece = cell (board b) row col in
      if piece = CHR ''.'' then []
      else let is_white = isupper piece in
        if upper piece = CHR ''P'' then pawn_moves b row col is_white attack_moves_only
        else if upper piece = CHR ''N'' then step_moves (board b) row col is_white knight_offsets
        else if upper piece = CHR ''R'' then slide_moves (board b) row col is_white rook_directions
        else if upper piece = CHR ''B'' then slide_moves (board b) row col is_white bishop_directions
        else if upper piece = CHR ''Q'' then slide_moves (board b) row col is_white queen_directions
        else if upper piece = CHR ''K'' then
          step_moves (board b) row col is_white king_offsets @
          (if \<not> attack_moves_only then castling_moves attacked b row col is_white else [])
        else [])"

subsection \<open>Attack detection\<close>

text \<open>
  \<open>is_under_attack\<close> calls \<open>get_all_valid_moves(attack_moves_only=True,
  validate_pins=False)\<close>, which calls \<open>get_valid_moves\<close> with these flags on every
  square: neither the castling block nor the pin verification runs, so the recursion
  ends there. \<open>attack_moves\<close> is \<open>get_valid_moves\<close> at these flags (lemma
  \<open>get_valid_moves_attack\<close> below).
\<close>

definition attack_moves :: "board_state \<Rightarrow> pos \<Rightarrow> pos list" where
  "attack_moves b pos = candidate_moves (\<lambda>p w. False) b pos True"

definition range8 :: "int list" where
  "range8 = [0, 1, 2, 3, 4, 5, 6, 7]"

definition squares :: "pos list" where
  "squares = concat (map (\<lambda>i. map (\<lambda>j. (i, j)) range8) range8)"

definition get_all_attack_moves :: "board_state \<Rightarrow> (pos \<times> char \<times> pos list) list" where
  "get_all_attack_moves b =
     map (\<lambda>(i, j). ((i, j), (cell (board b) i j, attack_moves b (i, j)))) squares"

definition is_under_attack :: "board_state \<Rightarrow> pos \<Rightarrow> bool \<Rightarrow> bool" where
  "is_under_attack b pos white_is_attacking =
     list_ex (\<lambda>(k, v). isupper (fst v) = white_is_attacking \<and> pos \<in> set (snd v))
       (get_all_attack_moves b)"

text \<open>\<open>Board.find\<close>: the squares holding the piece, in row-major order.\<close>

definition find_piece :: "grid \<Rightarrow> char \<Rightarrow> pos list" where
  "find_piece g piece = filter (\<lambda>(i, j). cell g i j = piece) squares"

text \<open>\<open>Board.in_check\<close>; \<open>find(piece)[0]\<close> raises IndexError when there is no such king.\<close>

definition in_check :: "board_state \<Rightarrow> bool \<Rightarrow> error + bool" where
  "in_check b white =
     (let piece = (if white then CHR ''K'' else CHR ''k'') in
      case find_piece (board b) piece of
        [] \<Rightarrow> Inl IndexError
      | king_pos # rest \<Rightarrow> Inr (is_under_attack b king_pos (\<not> white)))"

subsection \<open>Pin verification and \<open>get_valid_moves\<close>\<close>

text \<open>
  One round of the loop body of lines 406 to 410 for the destination \<open>mv\<close>: the raw move,
  the check test, and the raw move back. The result is the outcome of the check test
  and the board the round leaves. An exception leaves the board as it is at that point.
\<close>

definition pin_probe :: "board_state \<Rightarrow> pos \<Rightarrow> pos \<Rightarrow> (error + bool) \<times> board_state" where
  "pin_probe b pos mv =
     (case Move_init pos mv None of
        Inl e \<Rightarrow> (Inl e, b)
      | Inr m1 \<Rightarrow>
          let b1 = make_raw_move b m1 in
          (case in_check b1 (isupper (cell (board b1) (fst pos) (snd pos))) of
             Inl e \<Rightarrow> (Inl e, b1)
           | Inr chk \<Rightarrow>
               (case Move_init mv pos None of
                  Inl e \<Rightarrow> (Inl e, b1)
                | Inr m2 \<Rightarrow> (Inr chk, make_raw_move b1 m2))))"

text \<open>
  \<open>for move in moves\<close> over the list that the body shortens: the iterator holds an
  index \<open>i\<close>, takes \<open>moves[i]\<close> while \<open>i < len(moves)\<close>, and \<open>moves.remove(move)\<close>
  deletes the first element equal to \<open>move\<close>.
\<close>

function pin_verification ::
  "board_state \<Rightarrow> pos \<Rightarrow> pos list \<Rightarrow> nat \<Rightarrow> (error + pos list) \<times> board_state" where
  "pin_verification b pos moves i =
     (if i < length moves then
        (case pin_probe b pos (moves ! i) of
           (Inl e, b') \<Rightarrow> (Inl e, b')
         | (Inr chk, b') \<Rightarrow>
             pin_verification b' pos (if chk then remove1 (moves ! i) moves else moves) (Suc i))
      else (Inr moves, b))"
  by pat_completeness auto
termination
  by (relation "measure (\<lambda>(b, pos, moves, i). length moves - i)")
     (auto simp: length_remove1)

declare pin_verification.simps [simp del]

text \<open>\<open>Board.get_valid_moves\<close>: the result and the board it leaves.\<close>

definition get_valid_moves ::
  "board_state \<Rightarrow> pos \<Rightarrow> bool \<Rightarrow> bool \<Rightarrow> (error + pos list) \<times> board_state" where
  "get_valid_moves b pos attack_moves_only validate_pin =
     (if cell (board b) (fst pos) (snd pos) = CHR ''.'' then (Inr [], b)
      else let moves = candidate_moves (is_under_attack b) b pos attack_moves_only in
        if validate_pin then pin_verification b pos moves 0 else (Inr moves, b))"

subsection \<open>\<open>make_move\<close>\<close>

definition set_castling :: "board_state \<Rightarrow> char \<Rightarrow> bool \<Rightarrow> board_state" where
  "set_castling b key v = b\<lparr>castling := (castling b)(key \<mapsto> v)\<rparr>"

text \<open>
  The body of \<open>make_move\<close> after the validity test, one definition for each commented
  block of the source. Each block reads \<open>self.white_turn\<close>, which changes only in the
  block that flips it.
\<close>

text \<open>Lines 142 to 150, "Setting en passant target".\<close>

definition set_en_passant_target :: "board_state \<Rightarrow> move \<Rightarrow> board_state" where
  "set_en_passant_target b m =
     (let src_row = fst (source m); src_col = snd (source m); dst_row = fst (target m);
          pawn_start_row = (if white_turn b then 6 else 1);
          pawn_two_move_row = (if white_turn b then 4 else 3)
      in if upper (cell (board b) src_row src_col) = CHR ''P''
            \<and> src_row = pawn_start_row \<and> dst_row = pawn_two_move_row
         then b\<lparr>en_passant := Some (if white_turn b then src_row - 1 else src_row + 1, src_col)\<rparr>
         else b\<lparr>en_passant := None\<rparr>)"

text \<open>
  Lines 152 to 166, "Verifying castling rights"; \<open>self.find(...)[0]\<close> raises IndexError
  when the mover has no king.
\<close>

definition revoke_king_rights :: "board_state \<Rightarrow> move \<Rightarrow> error + board_state" where
  "revoke_king_rights b m =
     (case find_piece (board b) (if white_turn b then CHR ''K'' else CHR ''k'') of
        [] \<Rightarrow> Inl IndexError
      | king_pos # rest \<Rightarrow>
          Inr (if king_pos = source m
               then set_castling (set_castling b (if white_turn b then CHR ''K'' else CHR ''k'') False)
                      (if white_turn b then CHR ''Q'' else CHR ''q'') False
               else b))"

definition revoke_queen_rook_right :: "board_state \<Rightarrow> move \<Rightarrow> board_state" where
  "revoke_queen_rook_right b m =
     (let queen_rook_pos = (if white_turn b then (7, 0) else (0, 0)) in
      if upper (cell (board b) (fst (source m)) (snd (source m))) = CHR ''R''
         \<and> source m = queen_rook_pos
      then set_castling b (if white_turn b then CHR ''Q'' else CHR ''q'') False else b)"

definition revoke_king_rook_right :: "board_state \<Rightarrow> move \<Rightarrow> board_state" where
  "revoke_king_rook_right b m =
     (let king_rook_pos = (if white_turn b then (7, 7) else (0, 7)) in
      if upper (cell (board b) (fst (source m)) (snd (source m))) = CHR ''R''
         \<and> source m = king_rook_pos
      then set_castling b (if white_turn b then CHR ''K'' else CHR ''k'') False else b)"

text \<open>Lines 171 to 175, "Player just moved so they must not be in check".\<close>

definition clear_mover_check :: "board_state \<Rightarrow> board_state" where
  "clear_mover_check b =
     (if white_turn b then b\<lparr>white_in_check := False\<rparr> else b\<lparr>black_in_check := False\<rparr>)"

text \<open>Lines 177 to 182, "Set the half move clock"; it runs after the raw move.\<close>

definition set_halfmove_clock :: "board_state \<Rightarrow> move \<Rightarrow> board_state" where
  "set_halfmove_clock b m =
     (if upper (cell (board b) (fst (source m)) (snd (source m))) = CHR ''P''
         \<or> upper (cell (board b) (fst (target m)) (snd (target m))) \<noteq> CHR ''.''
      then b\<lparr>halfmove_clock := 0\<rparr>
      else b\<lparr>halfmove_clock := halfmove_clock b + 1\<rparr>)"

text \<open>Lines 184 to 189, "Set the full move number" and "Change the player's turn".\<close>

definition set_fullmove_number :: "board_state \<Rightarrow> board_state" where
  "set_fullmove_number b =
     (if \<not> white_turn b then b\<lparr>fullmove_number := fullmove_number b + 1\<rparr> else b)"

definition change_turn :: "board_state \<Rightarrow> board_state" where
  "change_turn b = b\<lparr>white_turn := \<not> white_turn b\<rparr>"

text \<open>Lines 191 to 195, "Check if the new player is in check".\<close>

definition set_new_check :: "board_state \<Rightarrow> (error + unit) \<times> board_state" where
  "set_new_check b =
     (case in_check b (white_turn b) of
        Inl e \<Rightarrow> (Inl e, b)
      | Inr chk \<Rightarrow>
          (Inr (), if white_turn b then b\<lparr>white_in_check := chk\<rparr>
                   else b\<lparr>black_in_check := chk\<rparr>))"

text \<open>Lines 142 to 195 in order; an exception leaves the state as it is at that point.\<close>

definition apply_move :: "board_state \<Rightarrow> move \<Rightarrow> (error + unit) \<times> board_state" where
  "apply_move b m =
     (let b1 = set_en_passant_target b m in
      case revoke_king_rights b1 m of
        Inl e \<Rightarrow> (Inl e, b1)
      | Inr b2 \<Rightarrow>
          set_new_check
            (change_turn
              (set_fullmove_number
                (set_halfmove_clock
                  (clear_mover_check
                    (make_raw_move
                      (revoke_king_rook_right (revoke_queen_rook_right b2 m) m) m)) m))))"

text \<open>\<open>Board.make_move\<close>: the outcome and the board state the call leaves.\<close>

definition make_move :: "board_state \<Rightarrow> move \<Rightarrow> (error + unit) \<times> board_state" where
  "make_move b m =
     (case get_valid_moves b (source m) False True of
        (Inl e, b') \<Rightarrow> (Inl e, b')
      | (Inr valid_moves, b') \<Rightarrow>
          let src = cell (board b') (fst (source m)) (snd (source m)) in
          if target m \<notin> set valid_moves \<or> src = CHR ''.'' \<or> isupper src \<noteq> white_turn b'
          then (Inl IllegalMove, b')
          else apply_move b' m)"

section \<open>Notions of the specification and the positions used below\<close>

text \<open>
  A two-square pawn advance, in the words of the specification: the piece on the source
  square is a pawn and the target is two rows away in the source's file. The skipped
  square is the one between the two.
\<close>

definition two_square_pawn_advance :: "board_state \<Rightarrow> move \<Rightarrow> bool" where
  "two_square_pawn_advance b m =
     (upper (cell (board b) (fst (source m)) (snd (source m))) = CHR ''P''
      \<and> snd (target m) = snd (source m)
      \<and> \<bar>fst (target m) - fst (source m)\<bar> = 2)"

definition skipped_square :: "move \<Rightarrow> pos" where
  "skipped_square m = ((fst (source m) + fst (target m)) div 2, snd (source m))"

text \<open>
  A sequence of calls of \<open>make_move\<close> on one board, each on the state the one before
  left, whether it returned or raised.
\<close>

fun make_moves :: "board_state \<Rightarrow> move list \<Rightarrow> board_state" where
  "make_moves b [] = b"
| "make_moves b (m # ms) = make_moves (snd (make_move b m)) ms"

text \<open>A position with both kings and all four rooks on their home squares.\<close>

definition rooks_and_kings :: board_state where
  "rooks_and_kings =
     Board_init (Some [''r...k..r'', ''........'', ''........'', ''........'',
                 ''........'', ''........'', ''........'', ''R...K..R''])"

text \<open>
  The castling tests of the source (lines 353 to 402), for the king of the given colour
  on \<open>(row, col)\<close>: home square, right, empty squares between king and rook, rook at home,
  and no square between king and rook attacked by the other colour.
\<close>

definition kingside_castling_ok :: "board_state \<Rightarrow> bool \<Rightarrow> int \<Rightarrow> int \<Rightarrow> bool" where
  "kingside_castling_ok b is_white row col =
     (let home = (if is_white then 7 else 0) in
      row = home \<and> col = 4
      \<and> castling_get b (if is_white then CHR ''K'' else CHR ''k'')
      \<and> cell (board b) home 5 = CHR ''.'' \<and> cell (board b) home 6 = CHR ''.''
      \<and> cell (board b) home 7 = (if is_white then CHR ''R'' else CHR ''r'')
      \<and> \<not> is_under_attack b (home, 5) (\<not> is_white)
      \<and> \<not> is_under_attack b (home, 6) (\<not> is_white))"

definition queenside_castling_ok :: "board_state \<Rightarrow> bool \<Rightarrow> int \<Rightarrow> int \<Rightarrow> bool" where
  "queenside_castling_ok b is_white row col =
     (let home = (if is_white then 7 else 0) in
      row = home \<and> col = 4
      \<and> castling_get b (if is_white then CHR ''Q'' else CHR ''q'')
      \<and> cell (board b) home 3 = CHR ''.'' \<and> cell (board b) home 2 = CHR ''.''
      \<and> cell (board b) home 1 = CHR ''.''
      \<and> cell (board b) home 0 = (if is_white then CHR ''R'' else CHR ''r'')
      \<and> \<not> is_under_attack b (home, 3) (\<not> is_white)
      \<and> \<not> is_under_attack b (home, 2) (\<not> is_white)
      \<and> \<not> is_under_attack b (home, 1) (\<not> is_white))"

text \<open>
  The king-side castling condition in the words of the specification: the squares that
  must not be attacked are the king's current square and the squares it passes through,
  the final square excluded.
\<close>

definition spec_kingside_castling_ok :: "board_state \<Rightarrow> bool \<Rightarrow> int \<Rightarrow> int \<Rightarrow> bool" where
  "spec_kingside_castling_ok b is_white row col =
     (let home = (if is_white then 7 else 0) in
      row = home \<and> col = 4
      \<and> castling_get b (if is_white then CHR ''K'' else CHR ''k'')
      \<and> cell (board b) home 5 = CHR ''.'' \<and> cell (board b) home 6 = CHR ''.''
      \<and> cell (board b) home 7 = (if is_white then CHR ''R'' else CHR ''r'')
      \<and> \<not> is_under_attack b (home, 4) (\<not> is_white)
      \<and> \<not> is_under_attack b (home, 5) (\<not> is_white))"

text \<open>White can castle king-side by the source's test while a black rook attacks e1.\<close>

definition king_attacked_on_home :: board_state where
  "king_attacked_on_home =
     Board_init (Some [''k...r...'', ''........'', ''........'', ''........'',
                 ''........'', ''........'', ''........'', ''....K..R''])"

text \<open>White's king and rook at home while a black rook attacks g1 only.\<close>

definition castling_square_attacked :: board_state where
  "castling_square_attacked =
     Board_init (Some [''k.....r.'', ''........'', ''........'', ''........'',
                 ''........'', ''........'', ''........'', ''....K..R''])"

text \<open>
  Black's king and rook at home with a white pawn on h7: g8 is empty, so the pawn does
  not attack it, but it attacks the king once the king stands there.
\<close>

definition castling_into_pawn_attack :: board_state where
  "castling_into_pawn_attack =
     Board_init (Some [''....k..r'', ''.......P'', ''........'', ''........'',
                       ''........'', ''........'', ''........'', ''....K...''])"

text \<open>White pawn on e4 that can take a black pawn on d5; kings on e1 and e8.\<close>

definition pawn_with_capture :: board_state where
  "pawn_with_capture =
     Board_init (Some [''....k...'', ''........'', ''........'', ''...p....'',
                 ''....P...'', ''........'', ''........'', ''....K...''])"

text \<open>White knight on e2 pinned on the e-file by a black rook on e8; kings on e1 and a8.\<close>

definition pinned_knight :: board_state where
  "pinned_knight =
     Board_init (Some [''k...r...'', ''........'', ''........'', ''........'',
                 ''........'', ''........'', ''....N...'', ''....K...''])"

text \<open>
  White pawn on d5, black pawn on e7, black knight on c6, kings on e1 and e8, and the
  moves Kd1, e7-e5, d5xe6 en passant.
\<close>

definition before_en_passant_grid :: grid where
  "before_en_passant_grid =
     [''....k...'', ''....p...'', ''..n.....'', ''...P....'',
      ''........'', ''........'', ''........'', ''....K...'']"

definition king_to_d1 :: move where
  "king_to_d1 = \<lparr>source = (7, 4), target = (7, 3), promotion = None\<rparr>"

definition pawn_e7_e5 :: move where
  "pawn_e7_e5 = \<lparr>source = (1, 4), target = (3, 4), promotion = None\<rparr>"

definition pawn_takes_en_passant :: move where
  "pawn_takes_en_passant = \<lparr>source = (3, 3), target = (2, 4), promotion = None\<rparr>"

section \<open>Move: results\<close>

lemma algebraic_to_index_iff:
  "algebraic_to_index sq = (if square_ok sq then Inr (square_index sq) else Inl MalformedNotation)"
  by (simp add: algebraic_to_index_def square_ok_def square_index_def Let_def)

lemma square_index_valid:
  assumes "square_ok sq"
  shows "is_valid_position (square_index sq)"
proof -
  from assms have f: "lower (sq ! 0) \<in> set ''abcdefgh''" and r: "sq ! 1 \<in> set ''12345678''"
    by (simp_all add: square_ok_def)
  from r have "1 \<le> int_of_digit (sq ! 1) \<and> int_of_digit (sq ! 1) \<le> 8"
    by (auto simp: int_of_digit_def)
  moreover from f have "0 \<le> int (of_char (lower (sq ! 0))) - 97 \<and> int (of_char (lower (sq ! 0))) - 97 < 8"
    by auto
  ultimately show ?thesis
    by (simp add: is_valid_position_def square_index_def)
qed

lemma Move_init_promotion:
  "is_valid_position src \<Longrightarrow> is_valid_position dst \<Longrightarrow>
   Move_init src dst promo = Inr \<lparr>source = src, target = dst, promotion = promo\<rparr>"
  by (simp add: Move_init_def isinstance_str_def split: option.splits)

text \<open>
  C7. Move construction should fail with InvalidPromotion whenever a promotion is present
  and is not one of q, b, n, r. In the source the test is guarded by
  \<open>not isinstance(promotion, str)\<close>, so no string is ever rejected: the promotion
  \<open>x\<close> is accepted and stored.
\<close>

theorem Move_init_accepts_bad_promotion:
  "Move_init (6, 4) (4, 4) (Some ''x'') = Inr \<lparr>source = (6, 4), target = (4, 4), promotion = Some ''x''\<rparr>
   \<and> \<not> str_in ''x'' ''qbnr''"
  by (simp add: Move_init_def is_valid_position_def isinstance_str_def)

text \<open>
  C8 as the specification states it (file letter \<open>a\<close> to \<open>h\<close>) fails on an upper-case
  file letter: \<open>E2\<close> is outside the stated range and yet is converted.
\<close>

theorem from_algebraic_upper_case_counterexample:
  "\<not> (from_algebraic ''E2'' ''E4'' None = Inl MalformedNotation
       \<longleftrightarrow> \<not> spec_square_ok ''E2'' \<or> \<not> spec_square_ok ''E4'')"
  by (simp add: from_algebraic_def algebraic_to_index_def spec_square_ok_def lower_def
      ascii_uppercase_def ascii_lowercase_def Let_def int_of_digit_def is_valid_position_def
      Move_init_def)

text \<open>
  C8, amended. \<open>from_algebraic\<close> fails with MalformedNotation exactly when an endpoint
  text is not two characters, or its file letter, lowered, is outside \<open>a\<close> to \<open>h\<close>, or its
  rank digit is outside \<open>1\<close> to \<open>8\<close>; otherwise it returns the move whose endpoints have
  row = 8 minus the rank digit and column = the lowered file letter's offset from \<open>a\<close>.
\<close>

theorem from_algebraic_correct:
  "(from_algebraic s t promo = Inl MalformedNotation \<longleftrightarrow> \<not> square_ok s \<or> \<not> square_ok t)
   \<and> (square_ok s \<and> square_ok t \<longrightarrow>
        from_algebraic s t promo =
          Inr \<lparr>source = square_index s, target = square_index t, promotion = promo\<rparr>)"
  by (simp add: from_algebraic_def algebraic_to_index_iff square_index_valid Move_init_promotion)

theorem from_algebraic_correct_witness:
  "square_ok ''e2'' \<and> square_ok ''E4'' \<and>
   from_algebraic ''e2'' ''E4'' (Some ''q'') =
     Inr \<lparr>source = (6, 4), target = (4, 4), promotion = Some ''q''\<rparr>"
  using from_algebraic_correct [of "''e2''" "''E4''" "Some ''q''"]
  by (simp add: square_ok_def square_index_def lower_def ascii_uppercase_def
      ascii_lowercase_def int_of_digit_def)

section \<open>Board: the grid, the generated moves and the pin verification\<close>

lemma is_inside_valid: "is_inside r c = is_valid_position (r, c)"
  by (simp add: is_inside_def is_valid_position_def)

lemma wf_grid_row: "wf_grid g \<Longrightarrow> i < 8 \<Longrightarrow> length (g ! i) = 8"
  by (simp add: wf_grid_def list_all_length)

lemma wf_set_cell: "wf_grid g \<Longrightarrow> wf_grid (set_cell g r c v)"
proof -
  assume w: "wf_grid g"
  have "length ((set_cell g r c v) ! n) = 8" if "n < 8" for n
  proof (cases "n = nat r")
    case True
    with w that show ?thesis by (simp add: set_cell_def wf_grid_def list_all_length)
  next
    case False
    with w that show ?thesis by (simp add: set_cell_def wf_grid_def list_all_length)
  qed
  with w show ?thesis by (simp add: wf_grid_def list_all_length set_cell_def)
qed

lemma cell_set_cell:
  assumes "wf_grid g" "is_inside r c" "is_inside r' c'"
  shows "cell (set_cell g r c v) r' c' = (if r = r' \<and> c = c' then v else cell g r' c')"
proof -
  from assms have l: "length g = 8" "nat r < 8" "nat r' < 8" "nat c < 8" "nat c' < 8"
    by (auto simp: wf_grid_def is_inside_def)
  with assms have lr: "length (g ! nat r) = 8" by (simp add: wf_grid_row)
  have e: "nat r = nat r' \<longleftrightarrow> r = r'" "nat c = nat c' \<longleftrightarrow> c = c'"
    using assms by (auto simp: is_inside_def)
  show ?thesis
    using l lr e by (auto simp: cell_def set_cell_def nth_list_update)
qed

lemma pawn_moves_inside:
  "p \<in> set (pawn_moves b row col w ao) \<Longrightarrow> is_inside (fst p) (snd p)"
  by (auto simp: pawn_moves_def Let_def split: if_splits option.splits)

lemma step_moves_inside:
  "p \<in> set (step_moves g row col w offs) \<Longrightarrow> is_inside (fst p) (snd p)"
  by (auto simp: step_moves_def Let_def split: if_splits)

lemma slide_inside:
  "p \<in> set (slide g w r c dr dc) \<Longrightarrow> is_inside (fst p) (snd p)"
proof (induction g w r c dr dc rule: slide.induct)
  case (1 g w r c dr dc)
  then show ?case
    by (subst (asm) (2) slide.simps) (auto simp: Let_def split: if_splits)
qed

lemma slide_moves_inside:
  "p \<in> set (slide_moves g row col w dirs) \<Longrightarrow> is_inside (fst p) (snd p)"
  by (auto simp: slide_moves_def dest: slide_inside)

lemma castling_moves_inside:
  "p \<in> set (castling_moves att b row col w) \<Longrightarrow> is_inside (fst p) (snd p)"
  by (auto simp: castling_moves_def Let_def is_inside_def split: if_splits)

lemma candidate_moves_inside:
  "p \<in> set (candidate_moves att b pos ao) \<Longrightarrow> is_inside (fst p) (snd p)"
  by (auto simp: candidate_moves_def Let_def split: prod.splits if_splits
      dest: pawn_moves_inside step_moves_inside slide_moves_inside castling_moves_inside)

lemma pin_verification_subset:
  "pin_verification b pos moves i = (Inr ms, b') \<Longrightarrow> set ms \<subseteq> set moves"
proof (induction b pos moves i arbitrary: ms b' rule: pin_verification.induct)
  case (1 b pos moves i)
  show ?case
  proof (cases "i < length moves")
    case False
    with "1.prems" show ?thesis by (simp add: pin_verification.simps)
  next
    case True
    obtain r b1 where p: "pin_probe b pos (moves ! i) = (r, b1)" by (cases "pin_probe b pos (moves ! i)")
    show ?thesis
    proof (cases r)
      case (Inl e)
      with True p "1.prems" show ?thesis by (simp add: pin_verification.simps)
    next
      case (Inr chk)
      let ?moves' = "if chk then remove1 (moves ! i) moves else moves"
      from True p Inr "1.prems" have "pin_verification b1 pos ?moves' (Suc i) = (Inr ms, b')"
        by (simp add: pin_verification.simps)
      from "1.IH"[OF True p[symmetric] Inr this] have "set ms \<subseteq> set ?moves'" .
      also have "\<dots> \<subseteq> set moves"
        using set_remove1_subset[of "moves ! i" moves] by (auto split: if_splits)
      finally show ?thesis .
    qed
  qed
qed

lemma make_raw_move_fields: "make_raw_move b m = b\<lparr>board := board (make_raw_move b m)\<rparr>"
  by (simp add: make_raw_move_def Let_def)

lemma make_raw_move_wf: "wf_grid (board b) \<Longrightarrow> wf_grid (board (make_raw_move b m))"
  by (simp add: make_raw_move_def Let_def wf_set_cell)

lemma make_raw_move_cell:
  assumes "wf_grid (board b)" "is_valid_position (source m)" "is_valid_position (target m)"
    "is_inside r c"
  shows "cell (board (make_raw_move b m)) r c =
     (if (r, c) = target m then cell (board b) (fst (source m)) (snd (source m))
      else if (r, c) = source m then CHR ''.'' else cell (board b) r c)"
proof -
  obtain sr sc dr dc where m: "source m = (sr, sc)" "target m = (dr, dc)"
    by (cases "source m"; cases "target m") auto
  with assms have i: "is_inside sr sc" "is_inside dr dc" by (simp_all add: is_inside_valid)
  show ?thesis
    using assms(1,4) i m by (auto simp: make_raw_move_def Let_def cell_set_cell wf_set_cell)
qed

lemma pin_probe_fields: "snd (pin_probe b pos mv) = b\<lparr>board := board (snd (pin_probe b pos mv))\<rparr>"
proof -
  have x: "\<And>m1 m2. make_raw_move (make_raw_move b m1) m2 = b\<lparr>board := board (make_raw_move (make_raw_move b m1) m2)\<rparr>"
    by (simp add: make_raw_move_def Let_def)
  show ?thesis
    using x by (auto simp: pin_probe_def Let_def make_raw_move_fields[symmetric] split: sum.splits)
qed

lemma pin_probe_effect:
  assumes p: "pin_probe b pos mv = (Inr chk, b')" and w: "wf_grid (board b)" and ne: "mv \<noteq> pos"
  shows "wf_grid (board b')"
    and "is_inside r c \<Longrightarrow>
         cell (board b') r c = (if (r, c) = mv then CHR ''.'' else cell (board b) r c)"
proof -
  let ?m1 = "\<lparr>source = pos, target = mv, promotion = None\<rparr>"
  let ?m2 = "\<lparr>source = mv, target = pos, promotion = None\<rparr>"
  from p have v: "is_valid_position pos" "is_valid_position mv"
    by (auto simp: pin_probe_def Move_init_def split: if_splits)
  then have mi: "Move_init pos mv None = Inr ?m1" "Move_init mv pos None = Inr ?m2"
    by (simp_all add: Move_init_def)
  from p mi have b': "b' = make_raw_move (make_raw_move b ?m1) ?m2"
    by (auto simp: pin_probe_def Let_def split: sum.splits)
  from w show "wf_grid (board b')" by (simp add: b' make_raw_move_wf)
  assume i: "is_inside r c"
  have w1: "wf_grid (board (make_raw_move b ?m1))" using w by (rule make_raw_move_wf)
  have im: "is_inside (fst mv) (snd mv)" "is_inside (fst pos) (snd pos)"
    using v by (simp_all add: is_inside_valid)
  show "cell (board b') r c = (if (r, c) = mv then CHR ''.'' else cell (board b) r c)"
    using ne v i im
    by (auto simp: b' make_raw_move_cell[OF w1] make_raw_move_cell[OF w])
qed

lemma pin_verification_fields:
  "b\<lparr>board := board (snd (pin_verification b pos moves i))\<rparr> = snd (pin_verification b pos moves i)"
proof (induction b pos moves i rule: pin_verification.induct)
  case (1 b pos moves i)
  show ?case
  proof (cases "i < length moves")
    case False
    then show ?thesis by (simp add: pin_verification.simps)
  next
    case True
    obtain r b1 where p: "pin_probe b pos (moves ! i) = (r, b1)" by (cases "pin_probe b pos (moves ! i)")
    from pin_probe_fields[of b pos "moves ! i"] p have b1: "b1 = b\<lparr>board := board b1\<rparr>" by simp
    show ?thesis
    proof (cases r)
      case (Inl e)
      with True p b1 show ?thesis by (simp add: pin_verification.simps[of b])
    next
      case (Inr chk)
      let ?moves' = "if chk then remove1 (moves ! i) moves else moves"
      let ?res = "pin_verification b1 pos ?moves' (Suc i)"
      from "1.IH"[OF True p[symmetric] Inr] have "b1\<lparr>board := board (snd ?res)\<rparr> = snd ?res" .
      then have "b\<lparr>board := board (snd ?res)\<rparr> = snd ?res" by (subst (asm) b1) simp
      moreover have "pin_verification b pos moves i = ?res"
        using True p Inr by (simp add: pin_verification.simps[of b])
      ultimately show ?thesis by simp
    qed
  qed
qed

lemma pin_verification_board:
  assumes "pin_verification b pos moves i = (Inr ms, b')" "wf_grid (board b)" "pos \<notin> set moves"
  shows "wf_grid (board b') \<and>
    (\<forall>r c. is_inside r c \<longrightarrow> cell (board b') r c = cell (board b) r c
         \<or> ((r, c) \<in> set moves \<and> cell (board b') r c = CHR ''.''))"
  using assms
proof (induction b pos moves i arbitrary: ms b' rule: pin_verification.induct)
  case (1 b pos moves i)
  show ?case
  proof (cases "i < length moves")
    case False
    with "1.prems" show ?thesis by (simp add: pin_verification.simps)
  next
    case True
    obtain r b1 where p: "pin_probe b pos (moves ! i) = (r, b1)" by (cases "pin_probe b pos (moves ! i)")
    show ?thesis
    proof (cases r)
      case (Inl e)
      with True p "1.prems" show ?thesis by (simp add: pin_verification.simps)
    next
      case (Inr chk)
      let ?moves' = "if chk then remove1 (moves ! i) moves else moves"
      from True p Inr "1.prems" have r: "pin_verification b1 pos ?moves' (Suc i) = (Inr ms, b')"
        by (simp add: pin_verification.simps)
      have sub: "set ?moves' \<subseteq> set moves"
        using set_remove1_subset[of "moves ! i" moves] by (auto split: if_splits)
      from True have mem: "moves ! i \<in> set moves" by simp
      with "1.prems" have ne: "moves ! i \<noteq> pos" by auto
      from p Inr have p': "pin_probe b pos (moves ! i) = (Inr chk, b1)" by simp
      note e = pin_probe_effect[OF p' "1.prems"(2) ne]
      from sub "1.prems" have "pos \<notin> set ?moves'" by auto
      from "1.IH"[OF True p[symmetric] Inr r e(1) this]
      have ih: "wf_grid (board b')"
        "\<And>r c. is_inside r c \<Longrightarrow> cell (board b') r c = cell (board b1) r c
            \<or> ((r, c) \<in> set ?moves' \<and> cell (board b') r c = CHR ''.'')"
        by auto
      show ?thesis
      proof (intro conjI allI impI)
        show "wf_grid (board b')" by (rule ih)
        fix r c assume i: "is_inside r c"
        from ih(2)[OF i] e(2)[OF i] sub mem
        show "cell (board b') r c = cell (board b) r c
            \<or> ((r, c) \<in> set moves \<and> cell (board b') r c = CHR ''.'')"
          by (auto split: if_splits)
      qed
    qed
  qed
qed

lemma pawn_moves_shape:
  assumes "p \<in> set (pawn_moves b row col w ao)"
  shows "(fst p = row + (if w then - 1 else 1) \<and> \<bar>snd p - col\<bar> \<le> 1)
       \<or> (p = (row + 2 * (if w then - 1 else 1), col) \<and> row = (if w then 6 else 1))"
  using assms by (auto simp: pawn_moves_def Let_def split: if_splits option.splits)

lemma pawn_moves_not_pos: "(row, col) \<notin> set (pawn_moves b row col w ao)"
  using pawn_moves_shape[of "(row, col)" b row col w ao] by (auto split: if_splits)

lemma knight_moves_not_pos: "(row, col) \<notin> set (step_moves g row col w knight_offsets)"
  by (auto simp: step_moves_def knight_offsets_def Let_def split: if_splits)

lemma king_steps_shape:
  "p \<in> set (step_moves g row col w king_offsets) \<Longrightarrow>
     p \<noteq> (row, col) \<and> \<bar>fst p - row\<bar> \<le> 1 \<and> \<bar>snd p - col\<bar> \<le> 1"
  by (auto simp: step_moves_def king_offsets_def Let_def split: if_splits)

lemma slide_shape:
  "p \<in> set (slide g w r c dr dc) \<Longrightarrow> \<exists>k\<ge>1. p = (r + k * dr, c + k * dc)"
proof (induction g w r c dr dc rule: slide.induct)
  case (1 g w r c dr dc)
  from "1.prems" have nz: "\<not> (dr = 0 \<and> dc = 0)" and ins: "is_inside (r + dr) (c + dc)"
    by (subst (asm) slide.simps, auto simp: Let_def split: if_splits)+
  from "1.prems" consider "p = (r + dr, c + dc)"
    | "cell g (r + dr) (c + dc) = CHR ''.''" "p \<in> set (slide g w (r + dr) (c + dc) dr dc)"
    by (subst (asm) slide.simps) (auto simp: Let_def split: if_splits)
  then show ?case
  proof cases
    case 1
    then show ?thesis by (intro exI[of _ 1]) simp
  next
    case 2
    from "1.IH"[OF nz refl refl _ refl 2(1) 2(2)] ins
    obtain k where "k \<ge> 1" "p = (r + dr + k * dr, c + dc + k * dc)" by auto
    then show ?thesis by (intro exI[of _ "k + 1"]) (simp add: algebra_simps)
  qed
qed

lemma slide_not_pos: "(r, c) \<notin> set (slide g w r c dr dc)"
proof
  assume a: "(r, c) \<in> set (slide g w r c dr dc)"
  then have nz: "\<not> (dr = 0 \<and> dc = 0)" by (subst (asm) slide.simps) (auto split: if_splits)
  from slide_shape[OF a] obtain k where "k \<ge> 1" "k * dr = 0" "k * dc = 0" by auto
  with nz show False by auto
qed

lemma slide_moves_not_pos: "(row, col) \<notin> set (slide_moves g row col w dirs)"
  by (auto simp: slide_moves_def slide_not_pos)

lemma castling_moves_shape:
  "p \<in> set (castling_moves att b row col w) \<Longrightarrow> fst p = row \<and> col = 4 \<and> (snd p = 6 \<or> snd p = 2)"
  by (auto simp: castling_moves_def Let_def split: if_splits)

lemma castling_moves_not_pos: "(row, col) \<notin> set (castling_moves att b row col w)"
  using castling_moves_shape[of "(row, col)" att b row col w] by auto

lemma king_steps_not_pos: "(row, col) \<notin> set (step_moves g row col w king_offsets)"
  using king_steps_shape[of "(row, col)" g row col w] by auto

lemma candidate_moves_not_pos: "pos \<notin> set (candidate_moves att b pos ao)"
  by (cases pos)
    (simp add: candidate_moves_def Let_def pawn_moves_not_pos knight_moves_not_pos
      slide_moves_not_pos king_steps_not_pos castling_moves_not_pos)

text \<open>What a call of \<open>get_valid_moves\<close> that returns leaves behind.\<close>

lemma get_valid_moves_result:
  assumes "get_valid_moves b pos ao vp = (Inr ms, b')"
  shows "set ms \<subseteq> set (candidate_moves (is_under_attack b) b pos ao)"
    and "b\<lparr>board := board b'\<rparr> = b'"
proof -
  show "set ms \<subseteq> set (candidate_moves (is_under_attack b) b pos ao)"
    using assms pin_verification_subset[of b pos _ 0 ms b']
    by (auto simp: get_valid_moves_def Let_def split: if_splits)
  show "b\<lparr>board := board b'\<rparr> = b'"
    using assms pin_verification_fields[of b pos "candidate_moves (is_under_attack b) b pos ao" 0]
    by (auto simp: get_valid_moves_def Let_def split: if_splits)
qed

lemma get_valid_moves_board:
  assumes "get_valid_moves b pos ao vp = (Inr ms, b')" "wf_grid (board b)"
  shows "wf_grid (board b')"
    and "is_inside r c \<Longrightarrow> cell (board b') r c = cell (board b) r c
         \<or> ((r, c) \<noteq> pos \<and> cell (board b') r c = CHR ''.'')"
proof -
  let ?c = "candidate_moves (is_under_attack b) b pos ao"
  have n: "pos \<notin> set ?c" by (rule candidate_moves_not_pos)
  show "wf_grid (board b')"
    using assms pin_verification_board[OF _ assms(2) n, of 0 ms b']
    by (auto simp: get_valid_moves_def Let_def split: if_splits)
  assume "is_inside r c"
  then show "cell (board b') r c = cell (board b) r c
         \<or> ((r, c) \<noteq> pos \<and> cell (board b') r c = CHR ''.'')"
    using assms n pin_verification_board[OF _ assms(2) n, of 0 ms b']
    by (auto simp: get_valid_moves_def Let_def split: if_splits)
qed

lemma get_valid_moves_source_cell:
  assumes "get_valid_moves b pos ao vp = (Inr ms, b')" "wf_grid (board b)" "is_valid_position pos"
  shows "cell (board b') (fst pos) (snd pos) = cell (board b) (fst pos) (snd pos)"
  using get_valid_moves_board(2)[OF assms(1,2), of "fst pos" "snd pos"] assms(3)
  by (auto simp: is_inside_valid)

lemma get_valid_moves_attack:
  "get_valid_moves b pos True False = (Inr (attack_moves b pos), b)"
  by (auto simp: get_valid_moves_def attack_moves_def candidate_moves_def Let_def split: prod.splits)

text \<open>
  C10. For a well-formed board and a square on the board, every destination that
  \<open>get_valid_moves\<close> returns, whatever the two flags, has its row and its column
  between 0 and 7.
\<close>

theorem get_valid_moves_in_range:
  assumes "wf_grid (board b)" "is_valid_position pos"
    "fst (get_valid_moves b pos attack_moves_only validate_pin) = Inr ms"
  shows "\<forall>(row, col) \<in> set ms. 0 \<le> row \<and> row \<le> 7 \<and> 0 \<le> col \<and> col \<le> 7"
proof -
  obtain b' where g: "get_valid_moves b pos attack_moves_only validate_pin = (Inr ms, b')"
    using assms(3) by (cases "get_valid_moves b pos attack_moves_only validate_pin") auto
  from get_valid_moves_result(1)[OF g] candidate_moves_inside
  have "\<forall>p \<in> set ms. is_inside (fst p) (snd p)" by blast
  then show ?thesis by (auto simp: is_inside_def)
qed

theorem get_valid_moves_in_range_witness:
  "wf_grid (board (Board_init None)) \<and> is_valid_position (7, 6) \<and>
   fst (get_valid_moves (Board_init None) (7, 6) False True) = Inr [(5, 7), (5, 5)] \<and>
   list_all (\<lambda>(row, col). 0 \<le> row \<and> row \<le> 7 \<and> 0 \<le> col \<and> col \<le> 7) [(5, 7), (5, 5) :: pos]"
proof -
  have w: "wf_grid (board (Board_init None))" by code_simp
  have v: "is_valid_position (7, 6)" by code_simp
  have g: "fst (get_valid_moves (Board_init None) (7, 6) False True) = Inr [(5, 7), (5, 5)]"
    by code_simp
  from get_valid_moves_in_range[OF w v g] w v g show ?thesis by simp
qed

section \<open>Board: \<open>make_move\<close>\<close>

lemma Move_init_valid:
  "Move_init s t promo = Inr m \<Longrightarrow> is_valid_position (source m) \<and> is_valid_position (target m)"
  by (auto simp: Move_init_def split: if_splits)

lemma make_move_success:
  assumes "make_move b m = (Inr (), b'')"
  obtains ms b' where "get_valid_moves b (source m) False True = (Inr ms, b')"
    and "target m \<in> set ms"
    and "cell (board b') (fst (source m)) (snd (source m)) \<noteq> CHR ''.''"
    and "isupper (cell (board b') (fst (source m)) (snd (source m))) = white_turn b'"
    and "apply_move b' m = (Inr (), b'')"
proof -
  obtain r b' where g: "get_valid_moves b (source m) False True = (r, b')"
    by (cases "get_valid_moves b (source m) False True")
  with assms obtain ms where r: "r = Inr ms"
    by (cases r) (auto simp: make_move_def)
  from assms g r that show ?thesis
    by (simp add: make_move_def Let_def split: if_splits)
qed

lemma set_castling_fields [simp]:
  "en_passant (set_castling b k v) = en_passant b"
  "board (set_castling b k v) = board b"
  "white_turn (set_castling b k v) = white_turn b"
  by (simp_all add: set_castling_def)

lemma make_raw_move_other_fields [simp]:
  "en_passant (make_raw_move b m) = en_passant b"
  "castling (make_raw_move b m) = castling b"
  "white_turn (make_raw_move b m) = white_turn b"
  by (simp_all add: make_raw_move_def Let_def)

lemma step_en_passant [simp]:
  "en_passant (revoke_queen_rook_right b m) = en_passant b"
  "en_passant (revoke_king_rook_right b m) = en_passant b"
  "en_passant (clear_mover_check b) = en_passant b"
  "en_passant (set_halfmove_clock b m) = en_passant b"
  "en_passant (set_fullmove_number b) = en_passant b"
  "en_passant (change_turn b) = en_passant b"
  "en_passant (snd (set_new_check b)) = en_passant b"
  by (simp_all add: revoke_queen_rook_right_def revoke_king_rook_right_def clear_mover_check_def
      set_halfmove_clock_def set_fullmove_number_def change_turn_def set_new_check_def Let_def
      split: sum.splits)

lemma step_board [simp]:
  "board (set_en_passant_target b m) = board b"
  "board (revoke_queen_rook_right b m) = board b"
  "board (revoke_king_rook_right b m) = board b"
  "board (clear_mover_check b) = board b"
  "board (set_halfmove_clock b m) = board b"
  "board (set_fullmove_number b) = board b"
  "board (change_turn b) = board b"
  "board (snd (set_new_check b)) = board b"
  by (simp_all add: set_en_passant_target_def revoke_queen_rook_right_def
      revoke_king_rook_right_def clear_mover_check_def
      set_halfmove_clock_def set_fullmove_number_def change_turn_def set_new_check_def Let_def
      split: sum.splits)

lemma step_white_turn [simp]:
  "white_turn (set_en_passant_target b m) = white_turn b"
  "white_turn (revoke_queen_rook_right b m) = white_turn b"
  "white_turn (revoke_king_rook_right b m) = white_turn b"
  "white_turn (clear_mover_check b) = white_turn b"
  "white_turn (set_halfmove_clock b m) = white_turn b"
  "white_turn (set_fullmove_number b) = white_turn b"
  by (simp_all add: set_en_passant_target_def revoke_queen_rook_right_def
      revoke_king_rook_right_def clear_mover_check_def
      set_halfmove_clock_def set_fullmove_number_def Let_def)

lemma revoke_king_rights_fields:
  "revoke_king_rights b m = Inr b2 \<Longrightarrow>
     en_passant b2 = en_passant b \<and> board b2 = board b \<and> white_turn b2 = white_turn b"
  by (auto simp: revoke_king_rights_def split: list.splits if_splits)

lemma apply_move_success:
  assumes "apply_move b m = (Inr (), b'')"
  obtains b2 where "revoke_king_rights (set_en_passant_target b m) m = Inr b2"
    and "b'' = snd (set_new_check (change_turn (set_fullmove_number (set_halfmove_clock
            (clear_mover_check (make_raw_move
              (revoke_king_rook_right (revoke_queen_rook_right b2 m) m) m)) m))))"
  using assms by (auto simp: apply_move_def Let_def split: sum.splits)

lemma apply_move_en_passant:
  assumes "apply_move b m = (Inr (), b'')"
  shows "en_passant b'' = en_passant (set_en_passant_target b m)"
  using assms revoke_king_rights_fields
  by (elim apply_move_success) simp

lemma apply_move_board:
  assumes "apply_move b m = (Inr (), b'')"
  shows "board b'' = board (make_raw_move b m)"
proof -
  from assms obtain b2 where r: "revoke_king_rights (set_en_passant_target b m) m = Inr b2"
    and b'': "b'' = snd (set_new_check (change_turn (set_fullmove_number (set_halfmove_clock
            (clear_mover_check (make_raw_move
              (revoke_king_rook_right (revoke_queen_rook_right b2 m) m) m)) m))))"
    by (rule apply_move_success)
  from revoke_king_rights_fields[OF r] have "board b2 = board b" by simp
  then show ?thesis by (simp add: b'' make_raw_move_def Let_def)
qed

lemma make_move_wf:
  assumes "wf_grid (board b)" "make_move b m = (Inr (), b')"
  shows "wf_grid (board b')"
proof -
  from assms(2) obtain ms b1 where g: "get_valid_moves b (source m) False True = (Inr ms, b1)"
    and ap: "apply_move b1 m = (Inr (), b')"
    by (rule make_move_success)
  from get_valid_moves_board(1)[OF g assms(1)] have "wf_grid (board b1)" .
  then show ?thesis by (simp add: apply_move_board[OF ap] make_raw_move_wf)
qed

lemma en_passant_make_move:
  assumes w: "wf_grid (board b)" and v: "is_valid_position (source m)"
    and mk: "make_move b m = (Inr (), b')"
  shows "en_passant b' = (if two_square_pawn_advance b m then Some (skipped_square m) else None)"
proof -
  from mk obtain ms b1 where g: "get_valid_moves b (source m) False True = (Inr ms, b1)"
    and tm: "target m \<in> set ms"
    and col: "isupper (cell (board b1) (fst (source m)) (snd (source m))) = white_turn b1"
    and ap: "apply_move b1 m = (Inr (), b')"
    by (rule make_move_success)
  obtain row col' where src: "source m = (row, col')" by (cases "source m")
  define piece where "piece = cell (board b) row col'"
  from get_valid_moves_source_cell[OF g w v] src
  have c1: "cell (board b1) row col' = piece" by (simp add: piece_def)
  from get_valid_moves_result(2)[OF g] have "white_turn (b\<lparr>board := board b1\<rparr>) = white_turn b1"
    by simp
  then have wt: "white_turn b1 = white_turn b" by simp
  from col c1 wt src have iw: "isupper piece = white_turn b" by simp
  have ep: "en_passant b' = en_passant (set_en_passant_target b1 m)"
    by (rule apply_move_en_passant[OF ap])
  from tm get_valid_moves_result(1)[OF g]
  have cand: "target m \<in> set (candidate_moves (is_under_attack b) b (row, col') False)"
    using src by auto
  show ?thesis
  proof (cases "upper piece = CHR ''P''")
    case False
    then show ?thesis
      using ep src c1 by (simp add: set_en_passant_target_def two_square_pawn_advance_def
          Let_def piece_def)
  next
    case True
    with cand have "target m \<in> set (pawn_moves b row col' (white_turn b) False)"
      using iw by (auto simp: candidate_moves_def Let_def piece_def split: if_splits)
    from pawn_moves_shape[OF this]
    consider (one) "fst (target m) = row + (if white_turn b then - 1 else 1)"
      | (two) "target m = (row + 2 * (if white_turn b then - 1 else 1), col')"
          "row = (if white_turn b then 6 else 1)"
      by auto
    then show ?thesis
    proof cases
      case one
      then show ?thesis
        using ep src c1 wt True
        by (auto simp: set_en_passant_target_def two_square_pawn_advance_def Let_def piece_def)
    next
      case two
      then show ?thesis
        using ep src c1 wt True
        by (auto simp: set_en_passant_target_def two_square_pawn_advance_def skipped_square_def
            Let_def piece_def)
    qed
  qed
qed

text \<open>
  C5. After every successful \<open>make_move\<close> the en-passant target is the skipped square
  exactly when the move was a two-square pawn advance, and is empty after every other
  move; so a target that was set is gone after the next successful \<open>make_move\<close>
  unless that move is again a two-square pawn advance.
\<close>

theorem en_passant_after_make_move:
  assumes "wf_grid (board b)" and "Move_init s t promo = Inr m"
    and "make_move b m = (Inr (), b')"
  shows "en_passant b' = (if two_square_pawn_advance b m then Some (skipped_square m) else None)
    \<and> (\<forall>s2 t2 promo2 m2 b2.
          Move_init s2 t2 promo2 = Inr m2 \<and> make_move b' m2 = (Inr (), b2)
          \<and> \<not> two_square_pawn_advance b' m2 \<longrightarrow> en_passant b2 = None)"
proof (intro conjI allI impI)
  from assms(2) have "is_valid_position (source m)" using Move_init_valid by blast
  from en_passant_make_move[OF assms(1) this assms(3)]
  show "en_passant b' = (if two_square_pawn_advance b m then Some (skipped_square m) else None)" .
next
  fix s2 t2 promo2 m2 b2
  assume a: "Move_init s2 t2 promo2 = Inr m2 \<and> make_move b' m2 = (Inr (), b2)
          \<and> \<not> two_square_pawn_advance b' m2"
  then have v: "is_valid_position (source m2)" using Move_init_valid by blast
  have w: "wf_grid (board b')" by (rule make_move_wf[OF assms(1,3)])
  from en_passant_make_move[OF w v] a show "en_passant b2 = None" by simp
qed

theorem en_passant_after_make_move_witness:
  "wf_grid (board (Board_init None))
   \<and> Move_init (6, 4) (4, 4) None = Inr \<lparr>source = (6, 4), target = (4, 4), promotion = None\<rparr>
   \<and> fst (make_move (Board_init None) \<lparr>source = (6, 4), target = (4, 4), promotion = None\<rparr>) = Inr ()
   \<and> en_passant (snd (make_move (Board_init None)
         \<lparr>source = (6, 4), target = (4, 4), promotion = None\<rparr>)) = Some (5, 4)"
proof -
  let ?b = "Board_init None"
  let ?m = "\<lparr>source = (6, 4), target = (4, 4), promotion = None\<rparr>"
  have w: "wf_grid (board ?b)" by code_simp
  have mi: "Move_init (6, 4) (4, 4) None = Inr ?m" by code_simp
  have f: "fst (make_move ?b ?m) = Inr ()" by code_simp
  then have mk: "make_move ?b ?m = (Inr (), snd (make_move ?b ?m))"
    by (simp add: prod_eq_iff)
  have t: "two_square_pawn_advance ?b ?m" by code_simp
  have s: "skipped_square ?m = (5, 4)" by code_simp
  from en_passant_after_make_move[OF w mi mk] t s
  have "en_passant (snd (make_move ?b ?m)) = Some (5, 4)" by simp
  with w mi f show ?thesis by simp
qed

section \<open>Board: castling rights\<close>

lemma set_range8: "set range8 = {0..7}"
proof -
  have r: "range8 = [0..7]" by code_simp
  show ?thesis by (simp add: r)
qed

lemma set_squares: "p \<in> set squares \<longleftrightarrow> is_valid_position p"
  by (cases p) (force simp: squares_def set_range8 is_valid_position_def)

lemma find_piece_iff:
  "p \<in> set (find_piece g piece) \<longleftrightarrow> is_valid_position p \<and> cell g (fst p) (snd p) = piece"
  by (cases p) (auto simp: find_piece_def set_squares)

lemma upper_eq_K:
  assumes "upper c = CHR ''K''"
  shows "c = (if isupper c then CHR ''K'' else CHR ''k'')"
proof (cases "map_of (zip ascii_lowercase ascii_uppercase) c")
  case None
  with assms have "c = CHR ''K''" by (simp add: upper_def)
  then show ?thesis by (simp add: isupper_def ascii_uppercase_def)
next
  case (Some u)
  with assms have u: "u = CHR ''K''" by (simp add: upper_def)
  from Some have "(c, u) \<in> set (zip ascii_lowercase ascii_uppercase)" by (rule map_of_SomeD)
  with u have "c = CHR ''k''"
    by (simp add: ascii_lowercase_def ascii_uppercase_def)
  then show ?thesis by (simp add: isupper_def ascii_uppercase_def)
qed

lemma castling_get_set_castling [simp]:
  "castling_get (set_castling b k v) k' = (if k' = k then v else castling_get b k')"
  by (simp add: castling_get_def set_castling_def)

lemma castling_get_cong: "castling b' = castling b \<Longrightarrow> castling_get b' k = castling_get b k"
  by (simp add: castling_get_def)

lemma step_castling [simp]:
  "castling (set_en_passant_target b m) = castling b"
  "castling (clear_mover_check b) = castling b"
  "castling (set_halfmove_clock b m) = castling b"
  "castling (set_fullmove_number b) = castling b"
  "castling (change_turn b) = castling b"
  "castling (snd (set_new_check b)) = castling b"
  by (simp_all add: set_en_passant_target_def clear_mover_check_def
      set_halfmove_clock_def set_fullmove_number_def change_turn_def set_new_check_def Let_def
      split: sum.splits)

lemma revoke_rook_rights_mono:
  "castling_get (revoke_queen_rook_right b m) k \<Longrightarrow> castling_get b k"
  "castling_get (revoke_king_rook_right b m) k \<Longrightarrow> castling_get b k"
  by (auto simp: revoke_queen_rook_right_def revoke_king_rook_right_def Let_def split: if_splits)

lemma revoke_king_rights_mono:
  "revoke_king_rights b m = Inr b2 \<Longrightarrow> castling_get b2 k \<Longrightarrow> castling_get b k"
  by (auto simp: revoke_king_rights_def split: list.splits if_splits)

lemma apply_move_castling:
  assumes "apply_move b m = (Inr (), b'')"
  obtains b2 where "revoke_king_rights (set_en_passant_target b m) m = Inr b2"
    and "castling b'' = castling (revoke_king_rook_right (revoke_queen_rook_right b2 m) m)"
  using assms by (elim apply_move_success) simp

lemma apply_move_castling_mono:
  assumes "castling_get (snd (apply_move b m)) k"
  shows "castling_get b k"
proof (cases "revoke_king_rights (set_en_passant_target b m) m")
  case (Inl e)
  with assms have "castling_get (set_en_passant_target b m) k"
    by (simp add: apply_move_def Let_def)
  then show ?thesis by (simp add: castling_get_def)
next
  case (Inr b2)
  let ?b4 = "revoke_king_rook_right (revoke_queen_rook_right b2 m) m"
  from Inr assms have "castling_get ?b4 k"
    by (simp add: apply_move_def Let_def castling_get_def)
  then have "castling_get b2 k" by (blast dest: revoke_rook_rights_mono)
  with Inr have "castling_get (set_en_passant_target b m) k" by (rule revoke_king_rights_mono)
  then show ?thesis by (simp add: castling_get_def)
qed

lemma get_valid_moves_castling:
  "castling (snd (get_valid_moves b pos ao vp)) = castling b"
proof -
  have "castling (snd (pin_verification b pos ms i)) = castling b" for ms i
    using pin_verification_fields[of b pos ms i, symmetric]
    by (metis board_state.select_convs(3) board_state.surjective board_state.update_convs(1))
  then show ?thesis by (simp add: get_valid_moves_def Let_def)
qed

lemma make_move_castling_mono:
  assumes "castling_get (snd (make_move b m)) k"
  shows "castling_get b k"
proof -
  obtain r b1 where g: "get_valid_moves b (source m) False True = (r, b1)"
    by (cases "get_valid_moves b (source m) False True")
  from get_valid_moves_castling[of b "source m" False True] g
  have c: "castling_get b1 k = castling_get b k" by (simp add: castling_get_def)
  show ?thesis
  proof (cases r)
    case (Inl e)
    with assms g c show ?thesis by (simp add: make_move_def)
  next
    case (Inr ms)
    with assms g have "castling_get b1 k \<or> castling_get (snd (apply_move b1 m)) k"
      by (auto simp: make_move_def Let_def split: if_splits)
    with c show ?thesis by (auto dest: apply_move_castling_mono)
  qed
qed

lemma make_moves_castling_mono:
  "castling_get (make_moves b ms) k \<Longrightarrow> castling_get b k"
  by (induction ms arbitrary: b) (auto dest: make_move_castling_mono)

lemma make_move_king_revoked:
  assumes w: "wf_grid (board b)" and v: "is_valid_position (source m)"
    and mk: "make_move b m = (Inr (), b')"
    and k: "upper (cell (board b) (fst (source m)) (snd (source m))) = CHR ''K''"
    and one: "length (find_piece (board b) (if white_turn b then CHR ''K'' else CHR ''k'')) = 1"
  shows "\<not> castling_get b' (if white_turn b then CHR ''K'' else CHR ''k'')
       \<and> \<not> castling_get b' (if white_turn b then CHR ''Q'' else CHR ''q'')"
proof -
  let ?kc = "if white_turn b then CHR ''K'' else CHR ''k''"
  from mk obtain ms b1 where g: "get_valid_moves b (source m) False True = (Inr ms, b1)"
    and col: "isupper (cell (board b1) (fst (source m)) (snd (source m))) = white_turn b1"
    and ap: "apply_move b1 m = (Inr (), b')"
    by (rule make_move_success)
  have c1: "cell (board b1) (fst (source m)) (snd (source m))
            = cell (board b) (fst (source m)) (snd (source m))"
    by (rule get_valid_moves_source_cell[OF g w v])
  from get_valid_moves_result(2)[OF g] have "white_turn (b\<lparr>board := board b1\<rparr>) = white_turn b1"
    by simp
  then have wt: "white_turn b1 = white_turn b" by simp
  from upper_eq_K[OF k] col c1 wt
  have pk: "cell (board b) (fst (source m)) (snd (source m)) = ?kc" by simp
  with c1 v have src_in: "source m \<in> set (find_piece (board b1) ?kc)"
    by (simp add: find_piece_iff)
  have sub: "set (find_piece (board b1) ?kc) \<subseteq> set (find_piece (board b) ?kc)"
  proof
    fix p assume "p \<in> set (find_piece (board b1) ?kc)"
    then have pv: "is_valid_position p" and pc: "cell (board b1) (fst p) (snd p) = ?kc"
      by (simp_all add: find_piece_iff)
    from pv have "is_inside (fst p) (snd p)" by (simp add: is_inside_valid)
    from get_valid_moves_board(2)[OF g w this] pc
    have "cell (board b) (fst p) (snd p) = ?kc" by (auto split: if_splits)
    with pv show "p \<in> set (find_piece (board b) ?kc)" by (simp add: find_piece_iff)
  qed
  from one obtain x where x: "find_piece (board b) ?kc = [x]"
    by (cases "find_piece (board b) ?kc") auto
  from src_in obtain kp rest where f1: "find_piece (board b1) ?kc = kp # rest"
    by (cases "find_piece (board b1) ?kc") auto
  from sub x src_in f1 have "kp = source m" by auto
  from ap obtain b2 where rk: "revoke_king_rights (set_en_passant_target b1 m) m = Inr b2"
    and cb: "castling b' = castling (revoke_king_rook_right (revoke_queen_rook_right b2 m) m)"
    by (rule apply_move_castling)
  from rk f1 \<open>kp = source m\<close> wt
  have b2: "\<not> castling_get b2 ?kc"
    "\<not> castling_get b2 (if white_turn b then CHR ''Q'' else CHR ''q'')"
    by (auto simp: revoke_king_rights_def)
  have "castling_get b' key \<Longrightarrow> castling_get b2 key" for key
    using cb by (auto simp: castling_get_def dest: revoke_rook_rights_mono[unfolded castling_get_def])
  with b2 show ?thesis by blast
qed

lemma make_move_rook_revoked:
  assumes w: "wf_grid (board b)" and v: "is_valid_position (source m)"
    and mk: "make_move b m = (Inr (), b')"
    and r: "upper (cell (board b) (fst (source m)) (snd (source m))) = CHR ''R''"
  shows "source m = (if white_turn b then (7, 0) else (0, 0)) \<Longrightarrow>
           \<not> castling_get b' (if white_turn b then CHR ''Q'' else CHR ''q'')"
    and "source m = (if white_turn b then (7, 7) else (0, 7)) \<Longrightarrow>
           \<not> castling_get b' (if white_turn b then CHR ''K'' else CHR ''k'')"
proof -
  from mk obtain ms b1 where g: "get_valid_moves b (source m) False True = (Inr ms, b1)"
    and ap: "apply_move b1 m = (Inr (), b')"
    by (rule make_move_success)
  have c1: "cell (board b1) (fst (source m)) (snd (source m))
            = cell (board b) (fst (source m)) (snd (source m))"
    by (rule get_valid_moves_source_cell[OF g w v])
  from get_valid_moves_result(2)[OF g] have "white_turn (b\<lparr>board := board b1\<rparr>) = white_turn b1"
    by simp
  then have wt: "white_turn b1 = white_turn b" by simp
  from ap obtain b2 where rk: "revoke_king_rights (set_en_passant_target b1 m) m = Inr b2"
    and cb: "castling b' = castling (revoke_king_rook_right (revoke_queen_rook_right b2 m) m)"
    by (rule apply_move_castling)
  from revoke_king_rights_fields[OF rk] wt
  have f2: "board b2 = board b1" "white_turn b2 = white_turn b" by simp_all
  let ?b3 = "revoke_queen_rook_right b2 m"
  have cg: "castling_get b' key = castling_get (revoke_king_rook_right ?b3 m) key" for key
    using cb by (simp add: castling_get_def)
  {
    assume "source m = (if white_turn b then (7, 0) else (0, 0))"
    with r c1 f2 have "\<not> castling_get ?b3 (if white_turn b then CHR ''Q'' else CHR ''q'')"
      by (simp add: revoke_queen_rook_right_def Let_def)
    then show "\<not> castling_get b' (if white_turn b then CHR ''Q'' else CHR ''q'')"
      unfolding cg by (blast dest: revoke_rook_rights_mono)
  }
  {
    assume "source m = (if white_turn b then (7, 7) else (0, 7))"
    with r c1 f2 show "\<not> castling_get b' (if white_turn b then CHR ''K'' else CHR ''k'')"
      unfolding cg by (simp add: revoke_king_rook_right_def Let_def)
  }
qed

text \<open>
  C6. After a successful \<open>make_move\<close> on a well-formed board: if the moved piece is
  the king (the only king of its colour, as the data model requires), both castling
  rights of the moving colour are false; if it is a rook leaving its home square, the
  right of that wing and colour is false; and over every sequence of \<open>make_move\<close>
  calls no castling right that is false becomes true.
\<close>

theorem castling_rights_revoked:
  assumes "wf_grid (board b)" and "Move_init s t promo = Inr m"
    and "make_move b m = (Inr (), b')"
  shows "(upper (cell (board b) (fst (source m)) (snd (source m))) = CHR ''K''
          \<and> length (find_piece (board b) (if white_turn b then CHR ''K'' else CHR ''k'')) = 1
          \<longrightarrow> \<not> castling_get b' (if white_turn b then CHR ''K'' else CHR ''k'')
              \<and> \<not> castling_get b' (if white_turn b then CHR ''Q'' else CHR ''q''))
    \<and> (upper (cell (board b) (fst (source m)) (snd (source m))) = CHR ''R''
          \<and> source m = (if white_turn b then (7, 0) else (0, 0))
          \<longrightarrow> \<not> castling_get b' (if white_turn b then CHR ''Q'' else CHR ''q''))
    \<and> (upper (cell (board b) (fst (source m)) (snd (source m))) = CHR ''R''
          \<and> source m = (if white_turn b then (7, 7) else (0, 7))
          \<longrightarrow> \<not> castling_get b' (if white_turn b then CHR ''K'' else CHR ''k''))
    \<and> (\<forall>b0 ms key. castling_get (make_moves b0 ms) key \<longrightarrow> castling_get b0 key)"
proof -
  from assms(2) have v: "is_valid_position (source m)" using Move_init_valid by blast
  show ?thesis
    using make_move_king_revoked[OF assms(1) v assms(3)]
      make_move_rook_revoked[OF assms(1) v assms(3)] make_moves_castling_mono
    by blast
qed

theorem castling_rights_revoked_witness:
  "wf_grid (board rooks_and_kings)
   \<and> Move_init (7, 4) (6, 4) None = Inr \<lparr>source = (7, 4), target = (6, 4), promotion = None\<rparr>
   \<and> fst (make_move rooks_and_kings \<lparr>source = (7, 4), target = (6, 4), promotion = None\<rparr>) = Inr ()
   \<and> upper (cell (board rooks_and_kings) 7 4) = CHR ''K''
   \<and> length (find_piece (board rooks_and_kings) (CHR ''K'')) = 1
   \<and> castling_get rooks_and_kings (CHR ''K'') \<and> castling_get rooks_and_kings (CHR ''Q'')
   \<and> \<not> castling_get (snd (make_move rooks_and_kings
          \<lparr>source = (7, 4), target = (6, 4), promotion = None\<rparr>)) (CHR ''K'')
   \<and> \<not> castling_get (snd (make_move rooks_and_kings
          \<lparr>source = (7, 4), target = (6, 4), promotion = None\<rparr>)) (CHR ''Q'')"
proof -
  let ?b = "rooks_and_kings"
  let ?m = "\<lparr>source = (7, 4), target = (6, 4), promotion = None\<rparr>"
  have w: "wf_grid (board ?b)" by code_simp
  have mi: "Move_init (7, 4) (6, 4) None = Inr ?m" by code_simp
  have f: "fst (make_move ?b ?m) = Inr ()" by code_simp
  then have mk: "make_move ?b ?m = (Inr (), snd (make_move ?b ?m))"
    by (simp add: prod_eq_iff)
  have k: "upper (cell (board ?b) 7 4) = CHR ''K''" by code_simp
  have one: "length (find_piece (board ?b) (CHR ''K'')) = 1" by code_simp
  have wt: "white_turn ?b" by code_simp
  have before: "castling_get ?b (CHR ''K'')" "castling_get ?b (CHR ''Q'')" by code_simp+
  from castling_rights_revoked[OF w mi mk] k one wt
  have "\<not> castling_get (snd (make_move ?b ?m)) (CHR ''K'')
      \<and> \<not> castling_get (snd (make_move ?b ?m)) (CHR ''Q'')"
    by simp
  with w mi f k one before show ?thesis by simp
qed

section \<open>Board: castling destinations\<close>

lemma castling_moves_kingside:
  "(row, col + 2) \<in> set (castling_moves (is_under_attack b) b row col w)
     \<longleftrightarrow> kingside_castling_ok b w row col"
  by (auto simp: castling_moves_def kingside_castling_ok_def Let_def)

lemma castling_moves_queenside:
  "(row, col - 2) \<in> set (castling_moves (is_under_attack b) b row col w)
     \<longleftrightarrow> queenside_castling_ok b w row col"
  by (auto simp: castling_moves_def queenside_castling_ok_def Let_def)

lemma king_steps_not_two:
  "(row, col + 2) \<notin> set (step_moves g row col w king_offsets)"
  "(row, col - 2) \<notin> set (step_moves g row col w king_offsets)"
  using king_steps_shape[of "(row, col + 2)" g row col w]
    king_steps_shape[of "(row, col - 2)" g row col w]
  by auto

lemma king_candidate_moves:
  assumes "upper (cell (board b) row col) = CHR ''K''"
  shows "candidate_moves att b (row, col) False =
     step_moves (board b) row col (isupper (cell (board b) row col)) king_offsets
     @ castling_moves att b row col (isupper (cell (board b) row col))"
proof -
  from upper_eq_K[OF assms] have "cell (board b) row col \<noteq> CHR ''.''"
    by (auto split: if_splits)
  with assms show ?thesis by (simp add: candidate_moves_def Let_def)
qed

text \<open>
  C4, amended. On a well-formed board, for a king on \<open>(row, col)\<close> and
  \<open>attack_moves_only\<close> false: whatever \<open>validate_pin\<close> is, a result of
  \<open>get_valid_moves\<close> holds the square two columns toward the rook only when the source's
  castling test for that wing holds, that is the king is on its home square, the right is
  set, the squares between king and rook are empty, the rook is on its home square, and
  none of the squares between king and rook is attacked by the other colour (the king's
  own square is not tested, the final square is). With \<open>validate_pin\<close> false the call
  returns and its result holds that square exactly when the test holds; with
  \<open>validate_pin\<close> true the pin verification may still remove it.
\<close>

theorem castling_destination_condition:
  assumes "wf_grid (board b)" and "is_valid_position (row, col)"
    and "upper (cell (board b) row col) = CHR ''K''"
  shows "(\<forall>ms. fst (get_valid_moves b (row, col) False validate_pin) = Inr ms \<longrightarrow>
            ((row, col + 2) \<in> set ms
               \<longrightarrow> kingside_castling_ok b (isupper (cell (board b) row col)) row col)
          \<and> ((row, col - 2) \<in> set ms
               \<longrightarrow> queenside_castling_ok b (isupper (cell (board b) row col)) row col))
    \<and> (\<exists>ms. fst (get_valid_moves b (row, col) False False) = Inr ms
          \<and> ((row, col + 2) \<in> set ms
               \<longleftrightarrow> kingside_castling_ok b (isupper (cell (board b) row col)) row col)
          \<and> ((row, col - 2) \<in> set ms
               \<longleftrightarrow> queenside_castling_ok b (isupper (cell (board b) row col)) row col))"
proof -
  from upper_eq_K[OF assms(3)] have ne: "cell (board b) row col \<noteq> CHR ''.''"
    by (auto split: if_splits)
  let ?w = "isupper (cell (board b) row col)"
  let ?c = "candidate_moves (is_under_attack b) b (row, col) False"
  have ks: "(row, col + 2) \<in> set ?c \<longleftrightarrow> kingside_castling_ok b ?w row col"
    by (simp add: king_candidate_moves[OF assms(3)] king_steps_not_two castling_moves_kingside)
  have qs: "(row, col - 2) \<in> set ?c \<longleftrightarrow> queenside_castling_ok b ?w row col"
    by (simp add: king_candidate_moves[OF assms(3)] king_steps_not_two castling_moves_queenside)
  have only_if: "((row, col + 2) \<in> set ms \<longrightarrow> kingside_castling_ok b ?w row col)
      \<and> ((row, col - 2) \<in> set ms \<longrightarrow> queenside_castling_ok b ?w row col)"
    if r: "fst (get_valid_moves b (row, col) False validate_pin) = Inr ms" for ms
  proof -
    obtain b' where g: "get_valid_moves b (row, col) False validate_pin = (Inr ms, b')"
      using r by (cases "get_valid_moves b (row, col) False validate_pin") auto
    from get_valid_moves_result(1)[OF g] have "set ms \<subseteq> set ?c" .
    with ks qs show ?thesis by blast
  qed
  from ne have "fst (get_valid_moves b (row, col) False False) = Inr ?c"
    by (simp add: get_valid_moves_def Let_def)
  with ks qs only_if show ?thesis by blast
qed

text \<open>
  C4 as the specification states it fails: with a black rook on the open e-file the
  white king on e1 is attacked, so the stated condition is false, and yet g1 is among
  the destinations, with \<open>validate_pin\<close> false and true alike.
\<close>

theorem castling_out_of_check_counterexample:
  "fst (get_valid_moves king_attacked_on_home (7, 4) False False)
     = Inr [(6, 3), (6, 4), (6, 5), (7, 3), (7, 5), (7, 6)]
   \<and> fst (get_valid_moves king_attacked_on_home (7, 4) False True)
     = Inr [(6, 3), (6, 4), (6, 5), (7, 3), (7, 5), (7, 6)]
   \<and> (7, 6) \<in> set [(6, 3), (6, 4), (6, 5), (7, 3), (7, 5), (7, 6 :: int) :: pos]
   \<and> is_under_attack king_attacked_on_home (7, 4) False
   \<and> \<not> spec_kingside_castling_ok king_attacked_on_home True 7 4"
  by code_simp

theorem castling_destination_condition_witness:
  "wf_grid (board rooks_and_kings) \<and> is_valid_position (7, 4)
   \<and> upper (cell (board rooks_and_kings) 7 4) = CHR ''K''
   \<and> fst (get_valid_moves rooks_and_kings (7, 4) False True)
       = Inr [(6, 3), (6, 4), (6, 5), (7, 3), (7, 5), (7, 6), (7, 2)]
   \<and> fst (get_valid_moves rooks_and_kings (7, 4) False False)
       = Inr [(6, 3), (6, 4), (6, 5), (7, 3), (7, 5), (7, 6), (7, 2)]
   \<and> kingside_castling_ok rooks_and_kings True 7 4
   \<and> queenside_castling_ok rooks_and_kings True 7 4"
proof -
  let ?b = "rooks_and_kings"
  have w: "wf_grid (board ?b)" by code_simp
  have v: "is_valid_position (7, 4)" by code_simp
  have k: "upper (cell (board ?b) 7 4) = CHR ''K''" by code_simp
  have u: "isupper (cell (board ?b) 7 4)" by code_simp
  have gt: "fst (get_valid_moves ?b (7, 4) False True)
       = Inr [(6, 3), (6, 4), (6, 5), (7, 3), (7, 5), (7, 6), (7, 2)]" by code_simp
  have gf: "fst (get_valid_moves ?b (7, 4) False False)
       = Inr [(6, 3), (6, 4), (6, 5), (7, 3), (7, 5), (7, 6), (7, 2)]" by code_simp
  from castling_destination_condition[OF w v k, of True] gt u
  have "kingside_castling_ok ?b True 7 4 \<and> queenside_castling_ok ?b True 7 4" by simp
  with w v k gt gf show ?thesis by simp
qed

text \<open>
  In the other direction the source refuses what the stated condition allows: e1 and f1
  are not attacked, g1 is, and g1 is not among the destinations.
\<close>

lemma castling_into_attack_refused:
  "spec_kingside_castling_ok castling_square_attacked True 7 4
   \<and> fst (get_valid_moves castling_square_attacked (7, 4) False False)
       = Inr [(6, 3), (6, 4), (6, 5), (7, 3), (7, 5)]"
  by code_simp

text \<open>
  With \<open>validate_pin\<close> true the source's castling test does not decide the result: here
  the test holds for black's king side and g8 is generated, and the pin verification
  removes it, because on g8 the king is attacked by the pawn on h7.
\<close>

lemma castling_destination_removed_by_pin_verification:
  "kingside_castling_ok castling_into_pawn_attack False 0 4
   \<and> fst (get_valid_moves castling_into_pawn_attack (0, 4) False False)
       = Inr [(0, 3), (0, 5), (1, 3), (1, 4), (1, 5), (0, 6)]
   \<and> fst (get_valid_moves castling_into_pawn_attack (0, 4) False True)
       = Inr [(0, 3), (0, 5), (1, 3), (1, 4), (1, 5)]"
  by code_simp

section \<open>Board: where the source departs from its documentation\<close>

text \<open>
  C1. A \<open>make_move\<close> that fails with IllegalMove should leave the board as it was.
  The pin verification of \<open>get_valid_moves\<close> undoes each trial move with a second raw
  move, which does not put a captured piece back: the illegal move e4 to e6 is refused,
  and the black pawn on d5, which the pawn on e4 could have taken, is gone.
\<close>

theorem failed_make_move_changes_board:
  "fst (make_move pawn_with_capture \<lparr>source = (4, 4), target = (2, 4), promotion = None\<rparr>)
     = Inl IllegalMove
   \<and> board pawn_with_capture =
       [''....k...'', ''........'', ''........'', ''...p....'',
        ''....P...'', ''........'', ''........'', ''....K...'']
   \<and> board (snd (make_move pawn_with_capture
         \<lparr>source = (4, 4), target = (2, 4), promotion = None\<rparr>)) =
       [''....k...'', ''........'', ''........'', ''........'',
        ''....P...'', ''........'', ''........'', ''....K...'']"
  by code_simp

theorem failed_make_move_changes_board_witness:
  "snd (make_move pawn_with_capture \<lparr>source = (4, 4), target = (2, 4), promotion = None\<rparr>)
     \<noteq> pawn_with_capture"
proof
  let ?after = "snd (make_move pawn_with_capture
      \<lparr>source = (4, 4), target = (2, 4), promotion = None\<rparr>)"
  assume a: "?after = pawn_with_capture"
  from failed_make_move_changes_board
  have 1: "cell (board pawn_with_capture) 3 3 = CHR ''p''"
    and 2: "cell (board ?after) 3 3 = CHR ''.''"
    by (simp_all add: cell_def)
  from 2 have "cell (board pawn_with_capture) 3 3 = CHR ''.''" unfolding a .
  with 1 show False by simp
qed

text \<open>
  C2. With \<open>validate_pin\<close> true no destination should remain that leaves the mover's
  king attacked. The check test reads the colour from the source square after the trial
  move has emptied it, so it always asks about the black king: every move of the pinned
  white knight is returned, and after the first of them the white king is in check.
\<close>

theorem pinned_knight_moves_kept:
  "length (find_piece (board pinned_knight) (CHR ''K'')) = 1
   \<and> length (find_piece (board pinned_knight) (CHR ''k'')) = 1
   \<and> fst (get_valid_moves pinned_knight (6, 4) False True)
       = Inr [(4, 5), (4, 3), (7, 6), (7, 2), (5, 6), (5, 2)]
   \<and> in_check (make_raw_move pinned_knight
         \<lparr>source = (6, 4), target = (4, 5), promotion = None\<rparr>) True = Inr True"
  by code_simp

text \<open>
  C3. After a move that is neither a pawn move nor a capture the half-move clock should
  be one more than before. The source tests the two squares after the raw move, when the
  source square is empty and the target holds the moved piece, so the clock is reset:
  after the knight move g1 to f3 from the starting position it is 0, not 1.
\<close>

theorem halfmove_clock_reset_by_knight_move:
  "cell (board (Board_init None)) 7 6 = CHR ''N''
   \<and> cell (board (Board_init None)) 5 5 = CHR ''.''
   \<and> halfmove_clock (Board_init None) = 0
   \<and> fst (make_move (Board_init None)
        \<lparr>source = (7, 6), target = (5, 5), promotion = None\<rparr>) = Inr ()
   \<and> halfmove_clock (snd (make_move (Board_init None)
        \<lparr>source = (7, 6), target = (5, 5), promotion = None\<rparr>)) = 0"
  by code_simp

theorem halfmove_clock_reset_by_knight_move_witness:
  "halfmove_clock (snd (make_move (Board_init None)
        \<lparr>source = (7, 6), target = (5, 5), promotion = None\<rparr>))
     \<noteq> halfmove_clock (Board_init None) + 1"
  using halfmove_clock_reset_by_knight_move by simp

text \<open>
  C9. A committed pawn capture onto the en-passant target should change the source and
  the target square only. After Kd1 and e7-e5 the white pawn on d5 takes on e6: the
  bypassed pawn stays on e5, and the knight on c6, which the pawn could also have taken,
  is removed by the pin verification.
\<close>

theorem en_passant_capture_changes_third_square:
  "board (make_moves (Board_init (Some before_en_passant_grid)) [king_to_d1, pawn_e7_e5]) =
     [''....k...'', ''........'', ''..n.....'', ''...Pp...'',
      ''........'', ''........'', ''........'', ''...K....'']
   \<and> en_passant (make_moves (Board_init (Some before_en_passant_grid)) [king_to_d1, pawn_e7_e5])
       = Some (2, 4)
   \<and> fst (make_move (make_moves (Board_init (Some before_en_passant_grid)) [king_to_d1, pawn_e7_e5])
        pawn_takes_en_passant) = Inr ()
   \<and> board (snd (make_move
        (make_moves (Board_init (Some before_en_passant_grid)) [king_to_d1, pawn_e7_e5])
        pawn_takes_en_passant)) =
     [''....k...'', ''........'', ''....P...'', ''....p...'',
      ''........'', ''........'', ''........'', ''...K....'']"
  by code_simp

theorem en_passant_capture_changes_third_square_witness:
  "cell (board (make_moves (Board_init (Some before_en_passant_grid)) [king_to_d1, pawn_e7_e5])) 2 2
     = CHR ''n''
   \<and> cell (board (snd (make_move
        (make_moves (Board_init (Some before_en_passant_grid)) [king_to_d1, pawn_e7_e5])
        pawn_takes_en_passant))) 2 2 = CHR ''.''"
  using en_passant_capture_changes_third_square by (simp add: cell_def)

end
